theory Spec2Isabelle
  imports Main
begin

section \<open>Data model\<close>

text \<open>
  \<^verbatim>\<open>Article(id=None, title=title, content=content)\<close>: the entity of
  \<^verbatim>\<open>domain.models\<close>, a plain holder of an optional integer id, a title and a
  content. The field \<^verbatim>\<open>id\<close> is written \<open>id'\<close>, since \<open>id\<close> is the identity of HOL.
\<close>

record article =
  id' :: "int option"
  title :: string
  content :: string

text \<open>
  The Python values that flow through the service and the endpoint: the cache hands back
  whatever was stored under a key, the service returns either that value, an article or
  \<^verbatim>\<open>None\<close>, and the endpoint returns a dict or a tuple.
\<close>

datatype pyval =
    PNone
  | PBool bool
  | PInt int
  | PStr string
  | PArticle article
  | PTuple "pyval list"
  | PDict "(string \<times> pyval) list"

text \<open>
  Truth value testing, as \<^verbatim>\<open>if cached_article:\<close> and \<^verbatim>\<open>if article:\<close> do it:
  \<^verbatim>\<open>None\<close>, \<^verbatim>\<open>False\<close>, zero and empty containers are false; an article object
  (which defines neither \<^verbatim>\<open>__bool__\<close> nor \<^verbatim>\<open>__len__\<close>) is true.
\<close>

fun truthy :: "pyval \<Rightarrow> bool" where
  "truthy PNone = False"
| "truthy (PBool b) = b"
| "truthy (PInt i) = (i \<noteq> 0)"
| "truthy (PStr s) = (s \<noteq> [])"
| "truthy (PArticle a) = True"
| "truthy (PTuple vs) = (vs \<noteq> [])"
| "truthy (PDict kvs) = (kvs \<noteq> [])"

section \<open>Collaborators\<close>

text \<open>
  Every call on a collaborator is recorded, in order, so that "does not query the store"
  is a statement about the record of calls.
\<close>

datatype call =
    CacheGet string
  | CacheSet string pyval
  | GetById int
  | Save article

text \<open>
  The state the service works on: the contents of the cache, the rows of the article
  table with the next value of its id sequence, and the calls made so far.
\<close>

record world =
  cache :: "string \<rightharpoonup> pyval"
  rows :: "article list"
  next_id :: int
  calls :: "call list"

text \<open>
  Modelled from the spec: \<^verbatim>\<open>CacheRepository\<close> (\<^verbatim>\<open>adapters.cache.cache_repo\<close>) is not
  among the sources. Its contract is \<^verbatim>\<open>get(key: string) -> value|absent\<close> and
  \<^verbatim>\<open>set(key: string, value) -> void\<close>, with no expiry; absent is \<^verbatim>\<open>None\<close>.
\<close>

definition cache_repo_get :: "string \<Rightarrow> world \<Rightarrow> pyval \<times> world" where
  "cache_repo_get key w =
     ((case cache w key of None \<Rightarrow> PNone | Some v \<Rightarrow> v),
      w\<lparr>calls := calls w @ [CacheGet key]\<rparr>)"

definition cache_repo_set :: "string \<Rightarrow> pyval \<Rightarrow> world \<Rightarrow> world" where
  "cache_repo_set key v w =
     w\<lparr>cache := (cache w)(key \<mapsto> v), calls := calls w @ [CacheSet key v]\<rparr>"

text \<open>
  \<^verbatim>\<open>ArticleRepository.get_by_id\<close>:
  \<^verbatim>\<open>self.db.query(Article).filter(Article.id == article_id).first()\<close>, the first row
  with that id, or \<^verbatim>\<open>None\<close>.
\<close>

definition get_by_id :: "int \<Rightarrow> world \<Rightarrow> pyval \<times> world" where
  "get_by_id article_id w =
     ((case find (\<lambda>a. id' a = Some article_id) (rows w) of
         None \<Rightarrow> PNone
       | Some a \<Rightarrow> PArticle a),
      w\<lparr>calls := calls w @ [GetById article_id]\<rparr>)"

text \<open>
  \<^verbatim>\<open>ArticleRepository.save\<close>: \<^verbatim>\<open>self.db.add(article); self.db.commit()\<close>. The
  article object is mutated in place, so the model returns it with the new world.

  Modelled from the spec: the mapping of \<^verbatim>\<open>domain.models.Article\<close> is not among the
  sources; the store "assigns id as a side effect" of save. The id assigned is the next
  value of the table's sequence.
\<close>

definition save :: "article \<Rightarrow> world \<Rightarrow> article \<times> world" where
  "save a w =
     (let a' = a\<lparr>id' := Some (next_id w)\<rparr>
      in (a', w\<lparr>rows := rows w @ [a'], next_id := next_id w + 1,
                calls := calls w @ [Save a]\<rparr>))"

section \<open>Cache keys\<close>

text \<open>
  \<^verbatim>\<open>f"article:{article_id}"\<close> formats the integer in decimal, with a minus sign when
  it is negative.
\<close>

definition digit_char :: "nat \<Rightarrow> char" where
  "digit_char d = ''0123456789'' ! d"

function str_nat :: "nat \<Rightarrow> string" where
  "str_nat n = (if n < 10 then [digit_char n] else str_nat (n div 10) @ [digit_char (n mod 10)])"
  by pat_completeness auto
termination
  by (relation "measure (\<lambda>n. n)") auto

declare str_nat.simps [simp del]

definition str_int :: "int \<Rightarrow> string" where
  "str_int i = (if i < 0 then CHR ''-'' # str_nat (nat (- i)) else str_nat (nat i))"

definition article_key :: "int \<Rightarrow> string" where
  "article_key article_id = ''article:'' @ str_int article_id"

section \<open>The article service\<close>

text \<open>
  \<^verbatim>\<open>ArticleUseCase.get_article\<close>: look the key up in the cache and return a true
  value at once; otherwise ask the store, cache a true answer, and return the answer.
\<close>

definition get_article :: "int \<Rightarrow> world \<Rightarrow> pyval \<times> world" where
  "get_article article_id w =
     (let (cached_article, w1) = cache_repo_get (article_key article_id) w
      in if truthy cached_article then (cached_article, w1)
         else
           let (article, w2) = get_by_id article_id w1;
               w3 = (if truthy article
                     then cache_repo_set (article_key article_id) article w2
                     else w2)
           in (article, w3))"

text \<open>
  \<^verbatim>\<open>ArticleUseCase.create_article\<close>: build the article without an id, save it, return
  the saved object.
\<close>

definition create_article :: "string \<Rightarrow> string \<Rightarrow> world \<Rightarrow> article \<times> world" where
  "create_article t c w =
     (let article = \<lparr>id' = None, title = t, content = c\<rparr>
      in save article w)"

section \<open>The states the service reaches\<close>

text \<open>
  The id sequence of the table is ahead of every id in it: each row has an id, and that
  id is below the next one to be assigned.
\<close>

definition ids_issued :: "world \<Rightarrow> bool" where
  "ids_issued w =
     list_all (\<lambda>a. case id' a of None \<Rightarrow> False | Some j \<Rightarrow> j < next_id w) (rows w)"

text \<open>
  The service starts with an empty cache over such a table, and from then on the state
  changes only through its two operations.
\<close>

inductive reachable :: "world \<Rightarrow> bool" where
  start: "cache w = Map.empty \<Longrightarrow> ids_issued w \<Longrightarrow> reachable w"
| read: "reachable w \<Longrightarrow> reachable (snd (get_article i w))"
| create: "reachable w \<Longrightarrow> reachable (snd (create_article t c w))"

section \<open>The HTTP endpoint\<close>

text \<open>
  The handler of \<^verbatim>\<open>GET /articles/{id}\<close>: it builds the two repositories and the
  use case around the injected connection and cache, asks the service, and returns the
  dict \<^verbatim>\<open>{"data": article}\<close> when the answer is true, and otherwise the tuple
  \<^verbatim>\<open>({"error": "Article not found"}, 404)\<close>.
\<close>

definition get_article_endpoint :: "int \<Rightarrow> world \<Rightarrow> pyval \<times> world" where
  "get_article_endpoint i w =
     (let (article, w') = get_article i w
      in if truthy article then (PDict [(''data'', article)], w')
         else (PTuple [PDict [(''error'', PStr ''Article not found'')], PInt 404], w'))"

text \<open>
  What the client receives. The route is declared by \<^verbatim>\<open>@router.get("/articles/{id}")\<close>,
  with no \<^verbatim>\<open>status_code\<close>, and the handler returns plain values, never a response
  object: the framework sends the returned value, encoded as JSON (a tuple as an array),
  under the status code of the route, which is 200 when the decorator names none.
\<close>

record http_response =
  status_code :: nat
  body :: pyval

definition route_status_code :: nat where
  "route_status_code = 200"

definition send_response :: "pyval \<Rightarrow> http_response" where
  "send_response v = \<lparr>status_code = route_status_code, body = v\<rparr>"

definition articles_route :: "int \<Rightarrow> world \<Rightarrow> http_response \<times> world" where
  "articles_route i w =
     (let (v, w') = get_article_endpoint i w in (send_response v, w'))"

section \<open>The connection provider\<close>

text \<open>
  The sessions handed out by \<^verbatim>\<open>SessionLocal\<close>, each open or closed; a session is
  named by its position. \<^verbatim>\<open>SessionLocal()\<close> opens a new one, \<^verbatim>\<open>db.close()\<close>
  closes the one it is called on.
\<close>

datatype session_status = SessionOpen | SessionClosed

type_synonym sessions = "session_status list"

definition SessionLocal :: "sessions \<Rightarrow> nat \<times> sessions" where
  "SessionLocal ss = (length ss, ss @ [SessionOpen])"

definition close :: "nat \<Rightarrow> sessions \<Rightarrow> sessions" where
  "close db ss = ss[db := SessionClosed]"

text \<open>
  \<^verbatim>\<open>get_db\<close> is a generator function: its body runs up to \<^verbatim>\<open>yield db\<close>, inside
  \<^verbatim>\<open>try\<close>, and is suspended there until the caller resumes it, with \<^verbatim>\<open>next\<close>
  (the request went well), with \<^verbatim>\<open>throw\<close> (the request raised) or with
  \<^verbatim>\<open>close\<close> (the generator is discarded). Whichever it is, control leaves the
  \<^verbatim>\<open>try\<close> block and the \<^verbatim>\<open>finally\<close> clause runs \<^verbatim>\<open>db.close()\<close>.
\<close>

datatype generator = Created | Suspended nat | Finished

datatype resume = Next | Throw string | Close

datatype outcome = Yielded nat | StopIteration | Raised string | Returned

text \<open>
  An exception is named by its class. A \<^verbatim>\<open>StopIteration\<close> that would leave the body
  of a generator is replaced by a \<^verbatim>\<open>RuntimeError\<close>; every other exception leaves
  it as it is.
\<close>

definition leaving_generator :: "string \<Rightarrow> string" where
  "leaving_generator e = (if e = ''StopIteration'' then ''RuntimeError'' else e)"

fun get_db :: "generator \<Rightarrow> resume \<Rightarrow> sessions \<Rightarrow> outcome \<times> generator \<times> sessions" where
  "get_db Created Next ss =
     (let (db, ss') = SessionLocal ss in (Yielded db, Suspended db, ss'))"
| "get_db Created (Throw e) ss = (Raised (leaving_generator e), Finished, ss)"
| "get_db Created Close ss = (Returned, Finished, ss)"
| "get_db (Suspended db) Next ss = (StopIteration, Finished, close db ss)"
| "get_db (Suspended db) (Throw e) ss = (Raised (leaving_generator e), Finished, close db ss)"
| "get_db (Suspended db) Close ss = (Returned, Finished, close db ss)"
| "get_db Finished Next ss = (StopIteration, Finished, ss)"
| "get_db Finished (Throw e) ss = (Raised e, Finished, ss)"
| "get_db Finished Close ss = (Returned, Finished, ss)"

section \<open>Example states\<close>

definition go_article :: article where
  "go_article = \<lparr>id' = Some 5, title = ''Go'', content = ''Intro''\<rparr>"

definition old_article :: article where
  "old_article = \<lparr>id' = Some 5, title = ''Go'', content = ''Draft''\<rparr>"

definition store_only :: world where
  "store_only = \<lparr>cache = Map.empty, rows = [go_article], next_id = 6, calls = []\<rparr>"

definition empty_world :: world where
  "empty_world = \<lparr>cache = Map.empty, rows = [], next_id = 1, calls = []\<rparr>"

definition cached_old :: world where
  "cached_old = \<lparr>cache = [''article:5'' \<mapsto> PArticle old_article], rows = [go_article],
                  next_id = 6, calls = []\<rparr>"

definition cached_empty_string :: world where
  "cached_empty_string = \<lparr>cache = [''article:5'' \<mapsto> PStr []], rows = [go_article],
                           next_id = 6, calls = []\<rparr>"

definition after_read :: world where
  "after_read = snd (get_article 5 store_only)"

section \<open>Basic facts\<close>

lemma str_nat_digit: "n < 10 \<Longrightarrow> str_nat n = [digit_char n]"
  by (subst str_nat.simps) simp

lemma str_int_5: "str_int 5 = ''5''"
  by (simp add: str_int_def str_nat_digit digit_char_def)

lemma str_int_6: "str_int 6 = ''6''"
  by (simp add: str_int_def str_nat_digit digit_char_def)

lemma str_int_7: "str_int 7 = ''7''"
  by (simp add: str_int_def str_nat_digit digit_char_def)

text \<open>The keys are the decimal numerals, as the format string writes them.\<close>

lemma article_key_examples:
  "article_key 0 = ''article:0''"
  "article_key 1024 = ''article:1024''"
  "article_key (- 12) = ''article:-12''"
  by code_simp+

section \<open>Distinct ids have distinct keys\<close>

lemma str_nat_step:
  "\<not> n < 10 \<Longrightarrow> str_nat n = str_nat (n div 10) @ [digit_char (n mod 10)]"
  by (subst str_nat.simps) simp

lemma digit_cases:
  "d < 10 \<Longrightarrow> d = 0 \<or> d = 1 \<or> d = 2 \<or> d = 3 \<or> d = 4 \<or> d = 5 \<or> d = 6 \<or> d = 7 \<or> d = 8 \<or> d = (9::nat)"
  by (simp add: eval_nat_numeral less_Suc_eq)

lemma digit_char_code:
  assumes "d < 10"
  shows "(of_char (digit_char d) :: nat) = 48 + d"
  using digit_cases [OF assms] by (elim disjE) (simp_all add: digit_char_def)

lemma digit_char_inj:
  assumes "d < 10" and "d' < 10" and "digit_char d = digit_char d'"
  shows "d = d'"
proof -
  have "(48::nat) + d = of_char (digit_char d)"
    using assms(1) by (simp only: digit_char_code)
  also have "\<dots> = of_char (digit_char d')"
    by (simp only: assms(3))
  also have "\<dots> = 48 + d'"
    using assms(2) by (simp only: digit_char_code)
  finally show ?thesis
    by simp
qed

lemma digit_char_not_minus:
  assumes "d < 10"
  shows "digit_char d \<noteq> CHR ''-''"
proof
  assume "digit_char d = CHR ''-''"
  then have "(of_char (digit_char d) :: nat) = 45"
    by simp
  with digit_char_code [OF assms] show False
    by simp
qed

lemma str_nat_nonempty: "str_nat n \<noteq> []"
  by (cases "n < 10") (simp_all add: str_nat_digit str_nat_step)

lemma str_nat_hd: "hd (str_nat n) \<noteq> CHR ''-''"
proof (induction n rule: str_nat.induct)
  case (1 n)
  show ?case
  proof (cases "n < 10")
    case True
    then show ?thesis
      by (simp add: str_nat_digit digit_char_not_minus)
  next
    case False
    with 1 show ?thesis
      by (simp add: str_nat_step str_nat_nonempty)
  qed
qed

lemma str_nat_not_minus: "str_nat n \<noteq> CHR ''-'' # r"
  using str_nat_hd [of n] by auto

text \<open>
  Two numbers with the same numeral are equal: the last digits agree, and so do the
  numerals of the tenths, by induction along the recursion of \<open>str_nat\<close>.
\<close>

lemma str_nat_inj: "str_nat m = str_nat n \<Longrightarrow> m = n"
proof (induction m arbitrary: n rule: str_nat.induct)
  case (1 m)
  show ?case
  proof (cases "m < 10")
    case m: True
    show ?thesis
    proof (cases "n < 10")
      case True
      with m "1.prems" show ?thesis
        by (simp add: str_nat_digit digit_char_inj)
    next
      case False
      with m "1.prems" have "[digit_char m] = str_nat (n div 10) @ [digit_char (n mod 10)]"
        by (simp add: str_nat_digit str_nat_step)
      then have "str_nat (n div 10) = []"
        by simp
      then show ?thesis
        by (simp add: str_nat_nonempty)
    qed
  next
    case m: False
    show ?thesis
    proof (cases "n < 10")
      case True
      with m "1.prems" have "str_nat (m div 10) @ [digit_char (m mod 10)] = [digit_char n]"
        by (simp add: str_nat_digit str_nat_step)
      then have "str_nat (m div 10) = []"
        by simp
      then show ?thesis
        by (simp add: str_nat_nonempty)
    next
      case False
      with m "1.prems"
      have "str_nat (m div 10) @ [digit_char (m mod 10)] =
            str_nat (n div 10) @ [digit_char (n mod 10)]"
        by (simp add: str_nat_step)
      then have p: "str_nat (m div 10) = str_nat (n div 10)"
        and d: "digit_char (m mod 10) = digit_char (n mod 10)"
        by simp_all
      from "1.IH" [OF m p] have q: "m div 10 = n div 10" .
      from d have r: "m mod 10 = n mod 10"
        by (rule digit_char_inj [rotated 2]) simp_all
      have "m = 10 * (m div 10) + m mod 10"
        by simp
      also have "\<dots> = 10 * (n div 10) + n mod 10"
        by (simp only: q r)
      also have "\<dots> = n"
        by simp
      finally show ?thesis .
    qed
  qed
qed

lemma str_int_inj: "str_int i = str_int j \<Longrightarrow> i = j"
proof -
  assume e: "str_int i = str_int j"
  show ?thesis
  proof (cases "i < 0")
    case i: True
    show ?thesis
    proof (cases "j < 0")
      case True
      with i e have "str_nat (nat (- i)) = str_nat (nat (- j))"
        by (simp add: str_int_def)
      then have "nat (- i) = nat (- j)"
        by (rule str_nat_inj)
      with i True show ?thesis
        by simp
    next
      case False
      with i e have "str_nat (nat j) = CHR ''-'' # str_nat (nat (- i))"
        by (simp add: str_int_def)
      then show ?thesis
        by (simp add: str_nat_not_minus)
    qed
  next
    case i: False
    show ?thesis
    proof (cases "j < 0")
      case True
      with i e have "str_nat (nat i) = CHR ''-'' # str_nat (nat (- j))"
        by (simp add: str_int_def)
      then show ?thesis
        by (simp add: str_nat_not_minus)
    next
      case False
      with i e have "str_nat (nat i) = str_nat (nat j)"
        by (simp add: str_int_def)
      then have "nat i = nat j"
        by (rule str_nat_inj)
      with i False show ?thesis
        by simp
    qed
  qed
qed

lemma article_key_inj: "article_key i = article_key j \<Longrightarrow> i = j"
  by (simp add: article_key_def str_int_inj)

section \<open>Reading through the cache\<close>

text \<open>
  C1. When the store has an article for the id and the cache has nothing under the key
  \<^verbatim>\<open>"article:" + id\<close>, \<open>get_article\<close> returns that article, and the last thing
  it does is to write the article into the cache under that key: afterwards the cache
  holds it there.
\<close>

theorem get_article_read_through:
  assumes "find (\<lambda>a. id' a = Some i) (rows w) = Some a"
    and "cache w (''article:'' @ str_int i) = None"
  shows "fst (get_article i w) = PArticle a
       \<and> cache (snd (get_article i w)) (''article:'' @ str_int i) = Some (PArticle a)
       \<and> calls (snd (get_article i w)) =
           calls w @ [CacheGet (''article:'' @ str_int i), GetById i,
                      CacheSet (''article:'' @ str_int i) (PArticle a)]"
  using assms
  by (simp add: get_article_def cache_repo_get_def get_by_id_def cache_repo_set_def
      article_key_def)

theorem get_article_read_through_witness:
  "fst (get_article 5 store_only) = PArticle go_article
   \<and> cache (snd (get_article 5 store_only)) ''article:5'' = Some (PArticle go_article)
   \<and> calls (snd (get_article 5 store_only)) =
       [CacheGet ''article:5'', GetById 5, CacheSet ''article:5'' (PArticle go_article)]"
proof -
  have r: "find (\<lambda>a. id' a = Some 5) (rows store_only) = Some go_article"
    by (simp add: store_only_def go_article_def)
  have c: "cache store_only (''article:'' @ str_int 5) = None"
    by (simp add: store_only_def)
  show ?thesis
    using get_article_read_through [OF r c] by (simp add: str_int_5 store_only_def)
qed

text \<open>
  After such a read-through, asking again for the same id returns the same value, and
  the only call made is the cache lookup: the store is not queried a second time.
\<close>

lemma get_article_second_call:
  assumes "find (\<lambda>a. id' a = Some i) (rows w) = Some a"
    and "cache w (''article:'' @ str_int i) = None"
  shows "fst (get_article i (snd (get_article i w))) = fst (get_article i w)
       \<and> calls (snd (get_article i (snd (get_article i w)))) =
           calls (snd (get_article i w)) @ [CacheGet (''article:'' @ str_int i)]"
  using assms
  by (simp add: get_article_def cache_repo_get_def get_by_id_def cache_repo_set_def
      article_key_def)

text \<open>
  C3. When the id is neither under its key in the cache nor in the store,
  \<open>get_article\<close> returns \<^verbatim>\<open>None\<close> and leaves the cache as it was: the key is
  still absent, and no cache write is among the calls.
\<close>

theorem get_article_absent:
  assumes "cache w (''article:'' @ str_int i) = None"
    and "find (\<lambda>a. id' a = Some i) (rows w) = None"
  shows "fst (get_article i w) = PNone
       \<and> cache (snd (get_article i w)) = cache w
       \<and> cache (snd (get_article i w)) (''article:'' @ str_int i) = None
       \<and> calls (snd (get_article i w)) =
           calls w @ [CacheGet (''article:'' @ str_int i), GetById i]"
  using assms
  by (simp add: get_article_def cache_repo_get_def get_by_id_def article_key_def)

theorem get_article_absent_witness:
  "fst (get_article 7 empty_world) = PNone
   \<and> cache (snd (get_article 7 empty_world)) = Map.empty
   \<and> calls (snd (get_article 7 empty_world)) = [CacheGet ''article:7'', GetById 7]"
proof -
  have c: "cache empty_world (''article:'' @ str_int 7) = None"
    by (simp add: empty_world_def)
  have r: "find (\<lambda>a. id' a = Some 7) (rows empty_world) = None"
    by (simp add: empty_world_def)
  show ?thesis
    using get_article_absent [OF c r] by (simp add: str_int_7 empty_world_def)
qed

text \<open>
  C10. \<open>get_article\<close> never changes the store: the rows and the id sequence are
  the same after the call as before, and no save is among the calls it makes.
\<close>

theorem get_article_store_unchanged:
  "rows (snd (get_article i w)) = rows w
   \<and> next_id (snd (get_article i w)) = next_id w
   \<and> Save a \<notin> set (drop (length (calls w)) (calls (snd (get_article i w))))"
  by (simp add: get_article_def cache_repo_get_def get_by_id_def cache_repo_set_def
      split: option.split)

section \<open>Cache hits and the truth test\<close>

text \<open>
  C2, as stated, fails: an entry whose value is false (here the empty string) is in the
  cache under \<^verbatim>\<open>"article:5"\<close>, yet \<open>get_article 5\<close> does not return it and does
  query the store.
\<close>

theorem cached_value_not_returned:
  "cache cached_empty_string (''article:'' @ str_int 5) = Some (PStr [])
   \<and> fst (get_article 5 cached_empty_string) \<noteq> PStr []
   \<and> GetById 5 \<in> set (calls (snd (get_article 5 cached_empty_string)))"
  by (simp add: get_article_def cache_repo_get_def get_by_id_def cache_repo_set_def
      article_key_def str_int_5 cached_empty_string_def go_article_def)

text \<open>
  C2, amended. When the cache holds a true value under \<^verbatim>\<open>"article:" + id\<close>,
  \<open>get_article\<close> returns that value and its only call is the cache lookup: the store
  is not queried, whatever it holds for that id, and the cache is left as it was.
\<close>

theorem get_article_cache_hit:
  assumes "cache w (''article:'' @ str_int i) = Some v"
    and "truthy v"
  shows "fst (get_article i w) = v
       \<and> calls (snd (get_article i w)) = calls w @ [CacheGet (''article:'' @ str_int i)]
       \<and> cache (snd (get_article i w)) = cache w
       \<and> rows (snd (get_article i w)) = rows w"
  using assms
  by (simp add: get_article_def cache_repo_get_def article_key_def)

theorem get_article_cache_hit_witness:
  "fst (get_article 5 cached_old) = PArticle old_article
   \<and> calls (snd (get_article 5 cached_old)) = [CacheGet ''article:5'']
   \<and> find (\<lambda>a. id' a = Some 5) (rows cached_old) = Some go_article
   \<and> go_article \<noteq> old_article"
proof -
  have c: "cache cached_old (''article:'' @ str_int 5) = Some (PArticle old_article)"
    by (simp add: cached_old_def str_int_5)
  have t: "truthy (PArticle old_article)"
    by simp
  have s: "find (\<lambda>a. id' a = Some 5) (rows cached_old) = Some go_article
           \<and> go_article \<noteq> old_article"
    by (simp add: cached_old_def go_article_def old_article_def)
  show ?thesis
    using get_article_cache_hit [OF c t] s by (simp add: str_int_5 cached_old_def)
qed

text \<open>
  C9. The test for a cache hit is the truth value of what the cache returns. When the
  value under the key is false, \<open>get_article\<close> goes on to query the store; an article
  found there is returned and written over the entry, and when the store has none the
  result is \<^verbatim>\<open>None\<close> and the cache is left alone.
\<close>

theorem get_article_falsy_is_miss:
  assumes "cache w (''article:'' @ str_int i) = Some v"
    and "\<not> truthy v"
  shows "(find (\<lambda>a. id' a = Some i) (rows w) = Some a \<longrightarrow>
            fst (get_article i w) = PArticle a
          \<and> cache (snd (get_article i w)) (''article:'' @ str_int i) = Some (PArticle a)
          \<and> calls (snd (get_article i w)) =
              calls w @ [CacheGet (''article:'' @ str_int i), GetById i,
                         CacheSet (''article:'' @ str_int i) (PArticle a)])
       \<and> (find (\<lambda>a. id' a = Some i) (rows w) = None \<longrightarrow>
            fst (get_article i w) = PNone
          \<and> cache (snd (get_article i w)) = cache w
          \<and> calls (snd (get_article i w)) =
              calls w @ [CacheGet (''article:'' @ str_int i), GetById i])"
  using assms
  by (simp add: get_article_def cache_repo_get_def get_by_id_def cache_repo_set_def
      article_key_def)

theorem get_article_falsy_is_miss_witness:
  "fst (get_article 5 cached_empty_string) = PArticle go_article
   \<and> cache (snd (get_article 5 cached_empty_string)) ''article:5'' = Some (PArticle go_article)
   \<and> calls (snd (get_article 5 cached_empty_string)) =
       [CacheGet ''article:5'', GetById 5, CacheSet ''article:5'' (PArticle go_article)]"
proof -
  have c: "cache cached_empty_string (''article:'' @ str_int 5) = Some (PStr [])"
    by (simp add: cached_empty_string_def str_int_5)
  have t: "\<not> truthy (PStr [])"
    by simp
  have r: "find (\<lambda>a. id' a = Some 5) (rows cached_empty_string) = Some go_article"
    by (simp add: cached_empty_string_def go_article_def)
  show ?thesis
    using get_article_falsy_is_miss [OF c t, of go_article] r
    by (simp add: str_int_5 cached_empty_string_def)
qed

text \<open>
  C7, as stated, fails: the entry under \<^verbatim>\<open>"article:5"\<close> is present before the call
  and holds another value after it.
\<close>

theorem cache_entry_overwritten:
  "cache cached_empty_string ''article:5'' = Some (PStr [])
   \<and> cache (snd (get_article 5 cached_empty_string)) ''article:5'' \<noteq> Some (PStr [])"
  by (simp add: get_article_def cache_repo_get_def get_by_id_def cache_repo_set_def
      article_key_def str_int_5 cached_empty_string_def go_article_def)

text \<open>
  C7, amended. \<open>get_article\<close> never removes a key from the cache, and it keeps the
  value of every entry except, at most, an entry under \<^verbatim>\<open>"article:" + id\<close> whose
  value is false; every other key is left exactly as it was, so at most that one key is
  written.
\<close>

theorem get_article_cache_insertion_only:
  "(cache w k = Some v \<and> (k \<noteq> ''article:'' @ str_int i \<or> truthy v) \<longrightarrow>
      cache (snd (get_article i w)) k = Some v)
   \<and> (k \<noteq> ''article:'' @ str_int i \<longrightarrow> cache (snd (get_article i w)) k = cache w k)
   \<and> (k \<in> dom (cache w) \<longrightarrow> k \<in> dom (cache (snd (get_article i w))))"
  by (auto simp add: get_article_def cache_repo_get_def get_by_id_def cache_repo_set_def
      article_key_def split: option.splits)

theorem get_article_cache_insertion_only_witness:
  "cache (snd (get_article 7 cached_old)) ''article:5'' = Some (PArticle old_article)
   \<and> cache (snd (get_article 5 cached_old)) ''article:5'' = Some (PArticle old_article)
   \<and> ''article:5'' \<in> dom (cache (snd (get_article 5 cached_empty_string)))"
proof -
  have c: "cache cached_old ''article:5'' = Some (PArticle old_article)"
    by (simp add: cached_old_def)
  have e: "''article:5'' \<in> dom (cache cached_empty_string)"
    by (simp add: cached_empty_string_def)
  have n: "''article:5'' \<noteq> ''article:'' @ str_int 7"
    by (simp add: str_int_7)
  show ?thesis
    using get_article_cache_insertion_only
            [of cached_old "''article:5''" "PArticle old_article" 7]
          get_article_cache_insertion_only
            [of cached_old "''article:5''" "PArticle old_article" 5]
          get_article_cache_insertion_only
            [of cached_empty_string "''article:5''" "PStr []" 5]
          c e n
    by simp
qed

section \<open>Creating an article\<close>

text \<open>
  C5. \<open>create_article\<close> builds the article with no id and hands exactly that to
  \<open>save\<close>; what it returns has an id, the given title and the given content, and is
  among the rows of the store afterwards.
\<close>

theorem create_article_persisted:
  "id' (fst (create_article t c w)) \<noteq> None
   \<and> title (fst (create_article t c w)) = t
   \<and> content (fst (create_article t c w)) = c
   \<and> calls (snd (create_article t c w)) =
       calls w @ [Save \<lparr>id' = None, title = t, content = c\<rparr>]
   \<and> fst (create_article t c w) \<in> set (rows (snd (create_article t c w)))"
  by (simp add: create_article_def save_def Let_def)

theorem create_article_persisted_witness:
  "fst (create_article ''T'' ''C'' empty_world) = \<lparr>id' = Some 1, title = ''T'', content = ''C''\<rparr>
   \<and> id' (fst (create_article ''T'' ''C'' empty_world)) \<noteq> None
   \<and> rows (snd (create_article ''T'' ''C'' empty_world)) =
       [\<lparr>id' = Some 1, title = ''T'', content = ''C''\<rparr>]"
  using create_article_persisted [of "''T''" "''C''" empty_world]
  by (simp add: create_article_def save_def Let_def empty_world_def)

text \<open>
  What the two operations do to the cache and the table: a read leaves the table alone
  and either leaves the cache alone too or stores, under the key of the id asked for, an
  article that the table holds with that id; a creation leaves the cache alone, appends
  the new row and advances the sequence.
\<close>

lemma get_article_frame:
  "rows (snd (get_article i w)) = rows w \<and> next_id (snd (get_article i w)) = next_id w"
  by (simp add: get_article_def cache_repo_get_def get_by_id_def cache_repo_set_def
      split: option.split)

lemma get_article_cache_cases:
  "cache (snd (get_article i w)) = cache w
   \<or> (\<exists>a. find (\<lambda>a. id' a = Some i) (rows w) = Some a
          \<and> cache (snd (get_article i w)) = (cache w)(article_key i \<mapsto> PArticle a))"
  by (simp add: get_article_def cache_repo_get_def get_by_id_def cache_repo_set_def
      split: option.split)

lemma create_article_effect:
  "fst (create_article t c w) = \<lparr>id' = Some (next_id w), title = t, content = c\<rparr>"
  "cache (snd (create_article t c w)) = cache w"
  "rows (snd (create_article t c w)) =
     rows w @ [\<lparr>id' = Some (next_id w), title = t, content = c\<rparr>]"
  "next_id (snd (create_article t c w)) = next_id w + 1"
  "calls (snd (create_article t c w)) =
     calls w @ [Save \<lparr>id' = None, title = t, content = c\<rparr>]"
  by (simp_all add: create_article_def save_def Let_def)

lemma ids_issued_row:
  "ids_issued w \<Longrightarrow> a \<in> set (rows w) \<Longrightarrow> id' a = Some j \<Longrightarrow> j < next_id w"
  by (auto simp add: ids_issued_def list_all_iff)

text \<open>
  In every state the service reaches, the sequence is ahead of the table, and every key
  of the cache is the key of an id that the sequence has passed.
\<close>

lemma reachable_invariant:
  "reachable w \<Longrightarrow>
     ids_issued w \<and> (\<forall>k \<in> dom (cache w). \<exists>j. k = article_key j \<and> j < next_id w)"
proof (induction rule: reachable.induct)
  case (start w)
  then show ?case
    by simp
next
  case (read w i)
  let ?w' = "snd (get_article i w)"
  from read.IH have issued: "ids_issued w"
    and keys: "\<forall>k \<in> dom (cache w). \<exists>j. k = article_key j \<and> j < next_id w"
    by simp_all
  have frame: "rows ?w' = rows w" "next_id ?w' = next_id w"
    by (simp_all add: get_article_frame)
  have "ids_issued ?w'"
    using issued
    by (auto simp add: ids_issued_def frame list_all_iff split: option.splits)
  moreover have "\<forall>k \<in> dom (cache ?w'). \<exists>j. k = article_key j \<and> j < next_id ?w'"
  proof (cases "cache ?w' = cache w")
    case True
    with keys show ?thesis
      by (simp add: frame)
  next
    case False
    with get_article_cache_cases [of i w] obtain a
      where a: "find (\<lambda>a. id' a = Some i) (rows w) = Some a"
        and c: "cache ?w' = (cache w)(article_key i \<mapsto> PArticle a)"
      by blast
    from a have "a \<in> set (rows w)" and "id' a = Some i"
      by (auto simp add: find_Some_iff)
    with issued have "i < next_id w"
      by (rule ids_issued_row)
    with keys show ?thesis
      by (auto simp add: c frame)
  qed
  ultimately show ?case
    by simp
next
  case (create w t c)
  let ?w' = "snd (create_article t c w)"
  from create.IH have issued: "ids_issued w"
    and keys: "\<forall>k \<in> dom (cache w). \<exists>j. k = article_key j \<and> j < next_id w"
    by simp_all
  have "ids_issued ?w'"
    using issued
    by (auto simp add: ids_issued_def create_article_effect list_all_iff split: option.splits)
  moreover have "\<forall>k \<in> dom (cache ?w'). \<exists>j. k = article_key j \<and> j < next_id ?w'"
    using keys by (fastforce simp add: create_article_effect)
  ultimately show ?case
    by simp
qed

lemma reachable_new_key_absent:
  assumes "reachable w"
  shows "cache w (article_key (next_id w)) = None"
proof (rule ccontr)
  assume "cache w (article_key (next_id w)) \<noteq> None"
  then have "article_key (next_id w) \<in> dom (cache w)"
    by (simp add: dom_def)
  with reachable_invariant [OF assms] obtain j
    where "article_key (next_id w) = article_key j" and "j < next_id w"
    by blast
  then show False
    by (auto dest: article_key_inj)
qed

lemma reachable_new_id_fresh:
  assumes "reachable w"
  shows "find (\<lambda>a. id' a = Some (next_id w)) (rows w) = None"
proof -
  have "id' a \<noteq> Some (next_id w)" if "a \<in> set (rows w)" for a
    using reachable_invariant [OF assms] that by (auto dest: ids_issued_row)
  then show ?thesis
    by (simp add: find_None_iff)
qed

lemma find_append_new:
  "find P xs = None \<Longrightarrow> P x \<Longrightarrow> find P (xs @ [x]) = Some x"
  by (induction xs) (simp_all split: if_splits)

text \<open>
  C6. \<open>create_article\<close> makes no call on the cache and leaves it as it was, in
  every state. So, in every state the service reaches, the \<open>get_article\<close> that
  follows for the new id misses the cache, queries the store, gets the article just
  created, and only then writes it into the cache.
\<close>

theorem create_article_skips_cache:
  "cache (snd (create_article t c w)) = cache w
   \<and> calls (snd (create_article t c w)) =
       calls w @ [Save \<lparr>id' = None, title = t, content = c\<rparr>]
   \<and> id' (fst (create_article t c w)) = Some (next_id w)
   \<and> (reachable w \<longrightarrow>
        fst (get_article (next_id w) (snd (create_article t c w))) =
          PArticle (fst (create_article t c w))
      \<and> calls (snd (get_article (next_id w) (snd (create_article t c w)))) =
          calls w @ [Save \<lparr>id' = None, title = t, content = c\<rparr>,
                     CacheGet (''article:'' @ str_int (next_id w)),
                     GetById (next_id w),
                     CacheSet (''article:'' @ str_int (next_id w))
                       (PArticle (fst (create_article t c w)))])"
proof -
  let ?new = "\<lparr>id' = Some (next_id w), title = t, content = c\<rparr>"
  let ?w' = "snd (create_article t c w)"
  have "fst (get_article (next_id w) ?w') = PArticle ?new
      \<and> calls (snd (get_article (next_id w) ?w')) =
          calls ?w' @ [CacheGet (article_key (next_id w)), GetById (next_id w),
                       CacheSet (article_key (next_id w)) (PArticle ?new)]"
    if r: "reachable w"
  proof -
    have miss: "cache ?w' (article_key (next_id w)) = None"
      using reachable_new_key_absent [OF r] by (simp add: create_article_effect)
    have "find (\<lambda>a. id' a = Some (next_id w)) (rows w @ [?new]) = Some ?new"
      using reachable_new_id_fresh [OF r] by (rule find_append_new) simp
    then have found: "find (\<lambda>a. id' a = Some (next_id w)) (rows ?w') = Some ?new"
      by (simp add: create_article_effect)
    show ?thesis
      using miss found
      by (simp add: get_article_def cache_repo_get_def get_by_id_def cache_repo_set_def)
  qed
  then show ?thesis
    by (simp add: create_article_effect article_key_def)
qed

theorem create_article_skips_cache_witness:
  "reachable after_read
   \<and> cache after_read ''article:5'' = Some (PArticle go_article)
   \<and> cache (snd (create_article ''T'' ''C'' after_read)) = cache after_read
   \<and> fst (get_article 6 (snd (create_article ''T'' ''C'' after_read))) =
       PArticle \<lparr>id' = Some 6, title = ''T'', content = ''C''\<rparr>
   \<and> calls (snd (get_article 6 (snd (create_article ''T'' ''C'' after_read)))) =
       [CacheGet ''article:5'', GetById 5, CacheSet ''article:5'' (PArticle go_article),
        Save \<lparr>id' = None, title = ''T'', content = ''C''\<rparr>,
        CacheGet ''article:6'', GetById 6,
        CacheSet ''article:6'' (PArticle \<lparr>id' = Some 6, title = ''T'', content = ''C''\<rparr>)]"
proof -
  have s: "reachable store_only"
    by (rule reachable.start) (simp_all add: store_only_def ids_issued_def go_article_def)
  have r: "reachable after_read"
    unfolding after_read_def using s by (rule reachable.read)
  have w: "after_read =
      \<lparr>cache = [''article:5'' \<mapsto> PArticle go_article], rows = [go_article], next_id = 6,
       calls = [CacheGet ''article:5'', GetById 5,
                CacheSet ''article:5'' (PArticle go_article)]\<rparr>"
    by (simp add: after_read_def get_article_def cache_repo_get_def get_by_id_def
        cache_repo_set_def article_key_def str_int_5 store_only_def go_article_def)
  have n: "next_id after_read = 6" and c: "calls after_read =
      [CacheGet ''article:5'', GetById 5, CacheSet ''article:5'' (PArticle go_article)]"
    and k: "cache after_read ''article:5'' = Some (PArticle go_article)"
    by (simp_all add: w)
  have f: "fst (create_article ''T'' ''C'' after_read) =
             \<lparr>id' = Some 6, title = ''T'', content = ''C''\<rparr>"
    by (simp add: create_article_effect n)
  show ?thesis
    using create_article_skips_cache [of "''T''" "''C''" after_read] r k
    by (simp add: n c f str_int_6)
qed

section \<open>The endpoint's answers\<close>

text \<open>
  What the handler returns, for every request: the dict with the article under
  \<^verbatim>\<open>"data"\<close> when the service's answer is true, the tuple of the error dict and the
  number 404 when it is not.
\<close>

lemma get_article_endpoint_returns:
  "fst (get_article_endpoint i w) =
     (if truthy (fst (get_article i w))
      then PDict [(''data'', fst (get_article i w))]
      else PTuple [PDict [(''error'', PStr ''Article not found'')], PInt 404])"
  by (simp add: get_article_endpoint_def split_beta)

lemma get_article_truthy_or_none:
  "truthy (fst (get_article i w)) \<or> fst (get_article i w) = PNone"
  by (simp add: get_article_def cache_repo_get_def get_by_id_def split: option.split)

text \<open>
  C4. For an id that is neither cached nor stored, the handler returns the tuple
  \<^verbatim>\<open>({"error": "Article not found"}, 404)\<close>. The number 404 is an element of the
  returned value, not the status of the response: the response carries the route's status
  code, 200, and its body is the whole tuple, not the error dict.
\<close>

theorem not_found_is_sent_as_200:
  "fst (get_article 7 empty_world) = PNone
   \<and> fst (get_article_endpoint 7 empty_world) =
       PTuple [PDict [(''error'', PStr ''Article not found'')], PInt 404]
   \<and> status_code (fst (articles_route 7 empty_world)) = 200
   \<and> body (fst (articles_route 7 empty_world)) \<noteq>
       PDict [(''error'', PStr ''Article not found'')]"
  by (simp add: articles_route_def send_response_def route_status_code_def
      get_article_endpoint_def get_article_def cache_repo_get_def get_by_id_def
      empty_world_def split_beta)

section \<open>Releasing the connection\<close>

text \<open>
  C8. Once \<open>get_db\<close> has handed out a session, every way of resuming it, be it the
  normal end of the request, an exception thrown into it or its being discarded, ends
  the generator with that session closed; an exception thrown in is raised again, after
  the close (a \<^verbatim>\<open>StopIteration\<close> as a \<^verbatim>\<open>RuntimeError\<close>).
\<close>

theorem get_db_always_closes:
  assumes "get_db Created Next ss0 = (Yielded db, g, ss1)"
    and "db < length ss"
  shows "ss1 ! db = SessionOpen
       \<and> fst (snd (get_db g r ss)) = Finished
       \<and> snd (snd (get_db g r ss)) ! db = SessionClosed
       \<and> fst (get_db g (Throw e) ss) = Raised (leaving_generator e)"
proof -
  from assms(1) have g: "g = Suspended db" and db: "db = length ss0"
    and ss1: "ss1 = ss0 @ [SessionOpen]"
    by (auto simp add: SessionLocal_def)
  have "ss1 ! db = SessionOpen"
    by (simp add: db ss1)
  moreover have "fst (snd (get_db g r ss)) = Finished
      \<and> snd (snd (get_db g r ss)) ! db = SessionClosed"
    using assms(2) by (cases r) (simp_all add: g close_def)
  moreover have "fst (get_db g (Throw e) ss) = Raised (leaving_generator e)"
    by (simp add: g)
  ultimately show ?thesis
    by simp
qed

theorem get_db_always_closes_witness:
  "get_db Created Next [] = (Yielded 0, Suspended 0, [SessionOpen])
   \<and> get_db (Suspended 0) (Throw ''boom'') [SessionOpen] = (Raised ''boom'', Finished, [SessionClosed])"
proof -
  have a: "get_db Created Next [] = (Yielded 0, Suspended 0, [SessionOpen])"
    by (simp add: SessionLocal_def)
  have v: "(0::nat) < length [SessionOpen]"
    by simp
  have s: "get_db (Suspended 0) (Throw ''boom'') [SessionOpen] =
             (Raised ''boom'', Finished, close 0 [SessionOpen])"
    by (simp add: leaving_generator_def)
  show ?thesis
    using get_db_always_closes [OF a v, of "Throw ''boom''" "''boom''"] a s
    by (simp add: close_def leaving_generator_def)
qed

end
